theory Spec2Isabelle
  imports Main "HOL-Library.Sublist"
begin

section \<open>The offline upload queue of TeleVault (src/services/offlineQueueService.ts)\<close>

subsection \<open>Data model\<close>

text \<open>
  The interface \<open>QueuedUpload\<close>. The fields \<open>id\<close> and \<open>file\<close> are called \<open>upload_id\<close> and \<open>upload_file\<close>
  here, and the fields of the file carry the prefix \<open>file_\<close>: \<open>id\<close> and \<open>size\<close> are
  constants of HOL and \<open>file\<close> is a keyword.
  Optional fields (\<open>lastAttempt?\<close>, \<open>error?\<close>) are options; \<open>attempts\<close> only ever starts at 0
  and is incremented, so it is a natural number. Timestamps are the strings that
  \<open>toISOString\<close> returns.
\<close>

datatype upload_status = Pending | Uploading | Completed | Failed

record file_info =
  file_uri :: string
  file_name :: string
  file_type :: string
  file_size :: nat

record upload_metadata =
  tags :: string
  category :: string
  uploader :: string
  chatId :: string

record QueuedUpload =
  upload_id :: string
  upload_file :: file_info
  metadata :: upload_metadata
  status :: upload_status
  attempts :: nat
  lastAttempt :: "string option"
  error :: "string option"
  createdAt :: string

definition MAX_RETRIES :: nat where
  "MAX_RETRIES = 3"

text \<open>
  A thrown JavaScript value, with its \<open>message\<close> property when it has one. A computation
  that may throw (or a promise that may reject) returns \<open>js_error + 'a\<close> together with the
  world it leaves behind.
\<close>

datatype js_error = JsError "string option"

text \<open>
  What AsyncStorage holds under the key \<open>upload_queue\<close>: nothing (\<open>getItem\<close> resolves to
  null), the empty string, the JSON text of a queue (what \<open>saveQueue\<close> writes:
  \<open>JSON.parse\<close> of \<open>JSON.stringify queue\<close> gives the queue back, a field set to
  \<open>undefined\<close> being an absent field), or a text that \<open>JSON.parse\<close> rejects. The key is
  written by \<open>saveQueue\<close> only, so a JSON text of something that is not an array of uploads
  is not considered.
\<close>

datatype stored = NoItem | EmptyString | QueueJson "QueuedUpload list" | Garbage

text \<open>
  The observable actions of the service, in the order they happen: a call of
  \<open>AsyncStorage.setItem\<close> with the JSON of a queue (and whether the store accepted it), a
  call of a subscribed listener with a snapshot, a call of
  \<open>telegramService.sendDocument\<close> (made on behalf of the queue item with the given id, with
  the form data and caption built from the file and metadata), and a call of
  \<open>databaseService.insertFile\<close> with the remote file id (absent when the response carried
  none). Console output is not modelled.
\<close>

datatype event =
    SetItem "QueuedUpload list" bool
  | Listener nat "QueuedUpload list"
  | SendDocument string file_info upload_metadata
  | InsertFile "string option" file_info upload_metadata

text \<open>
  What \<open>response.result.document.file_id\<close> finds in the value that \<open>sendDocument\<close> returns:
  nothing to read \<open>file_id\<close> from (\<open>response\<close>, \<open>result\<close> or \<open>document\<close> is undefined or null,
  and the engine throws a TypeError), or a document, with its \<open>file_id\<close> when it has one.
\<close>

datatype telegram_response = NoDocument | Document "string option"

text \<open>
  An invocation of \<open>processQueue\<close> that is suspended at one of its \<open>await\<close>s: waiting for
  \<open>NetInfo.fetch\<close>, waiting for the queue to load, or between two iterations of the
  \<open>for\<close> loop with the uploads still to process; or finished, or rejected.
\<close>

datatype pq_task =
    PQ_AwaitNet
  | PQ_AwaitQueue
  | PQ_Loop "QueuedUpload list"
  | PQ_Done
  | PQ_Rejected js_error

text \<open>
  The state of the process and of its store: the persisted value, the fields
  \<open>isProcessing\<close> and \<open>listeners\<close> of the service object (a listener is identified by a
  number, as JavaScript identifies a function by reference), the actions so far, the number
  of interactions with the outside so far, and the invocations of \<open>processQueue\<close> that were
  started without being awaited.
\<close>

record world =
  storage :: stored
  isProcessing :: bool
  listeners :: "nat list"
  trace :: "event list"
  tick :: nat
  drains :: "pq_task list"

text \<open>
  The outside, indexed by the interaction count: whether \<open>getItem\<close> or \<open>setItem\<close> rejects,
  what \<open>NetInfo.fetch\<close> reports, how \<open>sendDocument\<close> ends (it throws, or returns a
  response), whether a listener throws on a snapshot, and what the clock and \<open>Math.random\<close>
  return; and the TypeError, with the message of the engine, that reading a property of
  undefined or null throws.
\<close>

record env =
  getItem_throws :: "nat \<Rightarrow> bool"
  setItem_throws :: "nat \<Rightarrow> bool"
  isConnected :: "nat \<Rightarrow> bool"
  sendDocument_result :: "nat \<Rightarrow> js_error + telegram_response"
  listener_throws :: "nat \<Rightarrow> QueuedUpload list \<Rightarrow> bool"
  date_toISOString :: "nat \<Rightarrow> string"
  date_now :: "nat \<Rightarrow> string"
  random_toString36 :: "nat \<Rightarrow> string"
  engine_TypeError :: js_error

type_synonym 'a result = "(js_error + 'a) \<times> world"

subsection \<open>Control flow: await and try/catch\<close>

definition await :: "'a result \<Rightarrow> ('a \<Rightarrow> world \<Rightarrow> 'b result) \<Rightarrow> 'b result" where
  "await p k = (case p of (Inl e, w) \<Rightarrow> (Inl e, w) | (Inr x, w) \<Rightarrow> k x w)"

definition try_catch :: "'a result \<Rightarrow> (js_error \<Rightarrow> world \<Rightarrow> 'a result) \<Rightarrow> 'a result" where
  "try_catch p h = (case p of (Inl e, w) \<Rightarrow> h e w | (Inr x, w) \<Rightarrow> (Inr x, w))"

definition advance :: "world \<Rightarrow> world" where
  "advance w = w\<lparr>tick := tick w + 1\<rparr>"

definition emit :: "event \<Rightarrow> world \<Rightarrow> world" where
  "emit e w = w\<lparr>trace := trace w @ [e]\<rparr>"

subsection \<open>The collaborators\<close>

definition AsyncStorage_getItem :: "env \<Rightarrow> world \<Rightarrow> stored result" where
  "AsyncStorage_getItem E w =
     (if getItem_throws E (tick w) then (Inl (JsError None), advance w)
      else (Inr (storage w), advance w))"

text \<open>A rejected \<open>setItem\<close> leaves the stored value as it was.\<close>

definition AsyncStorage_setItem :: "env \<Rightarrow> QueuedUpload list \<Rightarrow> world \<Rightarrow> unit result" where
  "AsyncStorage_setItem E queue w =
     (if setItem_throws E (tick w)
      then (Inl (JsError None), advance (emit (SetItem queue False) w))
      else (Inr (), advance (emit (SetItem queue True) (w\<lparr>storage := QueueJson queue\<rparr>))))"

definition JSON_parse :: "stored \<Rightarrow> js_error + QueuedUpload list" where
  "JSON_parse s = (case s of QueueJson queue \<Rightarrow> Inr queue
                   | _ \<Rightarrow> Inl (JsError (Some ''SyntaxError'')))"

definition NetInfo_fetch :: "env \<Rightarrow> world \<Rightarrow> bool result" where
  "NetInfo_fetch E w = (Inr (isConnected E (tick w)), advance w)"

definition telegramService_sendDocument ::
  "env \<Rightarrow> QueuedUpload \<Rightarrow> world \<Rightarrow> telegram_response result" where
  "telegramService_sendDocument E upload w =
     (sendDocument_result E (tick w),
      advance (emit (SendDocument (upload_id upload) (upload_file upload) (metadata upload)) w))"

text \<open>
  \<open>databaseService.openDatabase\<close> and \<open>insertFile\<close> catch their own errors
  (databaseService.ts), so they return normally; \<open>insertFile\<close> is passed whatever
  \<open>file_id\<close> was read, also undefined.
\<close>

definition databaseService_insertFile ::
  "string option \<Rightarrow> QueuedUpload \<Rightarrow> world \<Rightarrow> unit result" where
  "databaseService_insertFile fileId upload w =
     (Inr (), advance (emit (InsertFile fileId (upload_file upload) (metadata upload)) w))"

definition delay :: "nat \<Rightarrow> world \<Rightarrow> unit result" where
  "delay ms w = (Inr (), w)"

subsection \<open>The service\<close>

text \<open>\<open>error.message || fallback\<close>: an absent or empty message is falsy.\<close>

definition message_or :: "js_error \<Rightarrow> string \<Rightarrow> string" where
  "message_or e fallback =
     (case e of JsError None \<Rightarrow> fallback
      | JsError (Some m) \<Rightarrow> (if m = [] then fallback else m))"

text \<open>\<open>Array.prototype.findIndex\<close>, with \<open>None\<close> for -1.\<close>

fun findIndex :: "('a \<Rightarrow> bool) \<Rightarrow> 'a list \<Rightarrow> nat option" where
  "findIndex P [] = None"
| "findIndex P (x # xs) = (if P x then Some 0 else map_option Suc (findIndex P xs))"

definition generateId :: "env \<Rightarrow> world \<Rightarrow> string" where
  "generateId E w =
     ''upload_'' @ date_now E (tick w) @ ''_'' @ take 9 (drop 2 (random_toString36 E (tick w)))"

definition getQueue :: "env \<Rightarrow> world \<Rightarrow> (QueuedUpload list) result" where
  "getQueue E w =
     try_catch
       (await (AsyncStorage_getItem E w) (\<lambda>queueJson w.
          case queueJson of
            NoItem \<Rightarrow> (Inr [], w)
          | EmptyString \<Rightarrow> (Inr [], w)
          | _ \<Rightarrow> (JSON_parse queueJson, w)))
       (\<lambda>error w. (Inr [], w))"

definition saveQueue :: "env \<Rightarrow> QueuedUpload list \<Rightarrow> world \<Rightarrow> unit result" where
  "saveQueue E queue w =
     try_catch (AsyncStorage_setItem E queue w) (\<lambda>error w. (Inr (), w))"

definition call_listener :: "env \<Rightarrow> nat \<Rightarrow> QueuedUpload list \<Rightarrow> world \<Rightarrow> unit result" where
  "call_listener E l queue w =
     (if listener_throws E l queue then (Inl (JsError None), emit (Listener l queue) w)
      else (Inr (), emit (Listener l queue) w))"

text \<open>\<open>Array.prototype.forEach\<close>: an exception of the callback ends the iteration.\<close>

fun forEach :: "'a list \<Rightarrow> ('a \<Rightarrow> world \<Rightarrow> unit result) \<Rightarrow> world \<Rightarrow> unit result" where
  "forEach [] f w = (Inr (), w)"
| "forEach (x # xs) f w =
     (case f x w of (Inl e, w') \<Rightarrow> (Inl e, w') | (Inr u, w') \<Rightarrow> forEach xs f w')"

definition notifyListeners :: "env \<Rightarrow> QueuedUpload list \<Rightarrow> world \<Rightarrow> unit result" where
  "notifyListeners E queue w =
     forEach (listeners w)
       (\<lambda>listener w. try_catch (call_listener E listener queue w) (\<lambda>error w. (Inr (), w))) w"

definition subscribe :: "nat \<Rightarrow> world \<Rightarrow> world" where
  "subscribe listener w = w\<lparr>listeners := listeners w @ [listener]\<rparr>"

definition unsubscribe :: "nat \<Rightarrow> world \<Rightarrow> world" where
  "unsubscribe listener w = w\<lparr>listeners := filter (\<lambda>l. l \<noteq> listener) (listeners w)\<rparr>"

text \<open>
  The \<open>try\<close> block of \<open>processUpload\<close>. The form data and the caption are built from
  \<open>upload\<close>, the object that \<open>processQueue\<close> passed in. Reading
  \<open>response.result.document.file_id\<close> throws only when there is no document to read it
  from; a document without \<open>file_id\<close> gives undefined, which is passed on. The block returns
  the queue with the entry marked completed.
\<close>

definition upload_try ::
  "env \<Rightarrow> QueuedUpload \<Rightarrow> QueuedUpload list \<Rightarrow> nat \<Rightarrow> world \<Rightarrow> (QueuedUpload list) result" where
  "upload_try E upload queue uploadIndex w =
     await (telegramService_sendDocument E upload w) (\<lambda>response w.
       case response of
         NoDocument \<Rightarrow> (Inl (engine_TypeError E), w)
       | Document fileId \<Rightarrow>
           await (databaseService_insertFile fileId upload w) (\<lambda>_ w.
             (Inr (queue[uploadIndex := (queue ! uploadIndex)\<lparr>status := Completed, error := None\<rparr>]),
              w)))"

text \<open>
  The \<open>catch\<close> block of \<open>processUpload\<close>. The test reads \<open>upload.attempts\<close>: the object
  passed in, not \<open>queue[uploadIndex]\<close>, whose counter was incremented.
\<close>

definition upload_catch ::
  "QueuedUpload \<Rightarrow> QueuedUpload list \<Rightarrow> nat \<Rightarrow> js_error \<Rightarrow> world \<Rightarrow> (QueuedUpload list) result" where
  "upload_catch upload queue uploadIndex err w =
     (if attempts upload \<ge> MAX_RETRIES
      then (Inr (queue[uploadIndex := (queue ! uploadIndex)
                  \<lparr>status := Failed,
                   error := Some (message_or err ''Upload failed after max retries'')\<rparr>]), w)
      else (Inr (queue[uploadIndex := (queue ! uploadIndex)
                  \<lparr>status := Pending,
                   error := Some (message_or err ''Upload failed, will retry'')\<rparr>]), w))"

definition processUpload :: "env \<Rightarrow> QueuedUpload \<Rightarrow> world \<Rightarrow> unit result" where
  "processUpload E upload w =
     await (getQueue E w) (\<lambda>queue w.
       case findIndex (\<lambda>u. upload_id u = upload_id upload) queue of
         None \<Rightarrow> (Inr (), w)
       | Some uploadIndex \<Rightarrow>
           let queue = queue[uploadIndex := (queue ! uploadIndex)
                         \<lparr>status := Uploading,
                          attempts := attempts (queue ! uploadIndex) + 1,
                          lastAttempt := Some (date_toISOString E (tick w))\<rparr>]
           in await (saveQueue E queue w) (\<lambda>_ w.
              await (notifyListeners E queue w) (\<lambda>_ w.
              await (try_catch (upload_try E upload queue uploadIndex w)
                               (upload_catch upload queue uploadIndex)) (\<lambda>queue w.
              await (saveQueue E queue w) (\<lambda>_ w.
              notifyListeners E queue w)))))"

text \<open>The predicate of the \<open>filter\<close> in \<open>processQueue\<close>.\<close>

definition eligible :: "QueuedUpload \<Rightarrow> bool" where
  "eligible upload \<longleftrightarrow>
     status upload = Pending \<or> (status upload = Failed \<and> attempts upload < MAX_RETRIES)"

text \<open>The \<open>for\<close> loop of \<open>processQueue\<close>, with its \<open>try\<close>/\<open>catch\<close> around each iteration.\<close>

fun for_uploads :: "env \<Rightarrow> QueuedUpload list \<Rightarrow> world \<Rightarrow> unit result" where
  "for_uploads E [] w = (Inr (), w)"
| "for_uploads E (upload # rest) w =
     (case try_catch (await (processUpload E upload w) (\<lambda>_ w. delay 1000 w))
                     (\<lambda>error w. (Inr (), w)) of
        (Inl e, w') \<Rightarrow> (Inl e, w')
      | (Inr u, w') \<Rightarrow> for_uploads E rest w')"

text \<open>\<open>processQueue\<close>, run from its call to its return with nothing else in between.\<close>

definition processQueue :: "env \<Rightarrow> world \<Rightarrow> unit result" where
  "processQueue E w =
     (if isProcessing w then (Inr (), w)
      else await (NetInfo_fetch E w) (\<lambda>netInfo w.
        if \<not> netInfo then (Inr (), w)
        else let w = w\<lparr>isProcessing := True\<rparr>
             in await (getQueue E w) (\<lambda>queue w.
                  let pendingUploads = filter eligible queue
                  in await (for_uploads E pendingUploads w) (\<lambda>_ w.
                       (Inr (), w\<lparr>isProcessing := False\<rparr>)))))"

text \<open>
  The call \<open>this.processQueue()\<close> whose promise nobody awaits: the body runs up to its first
  \<open>await\<close>, that is, it returns at once when \<open>isProcessing\<close> is set and is otherwise left
  suspended in \<open>NetInfo.fetch\<close>.
\<close>

definition processQueue_detached :: "world \<Rightarrow> world" where
  "processQueue_detached w =
     (if isProcessing w then w else w\<lparr>drains := drains w @ [PQ_AwaitNet]\<rparr>)"

text \<open>
  The callback that \<open>setupNetworkListener\<close> registers with \<open>NetInfo.addEventListener\<close>,
  called with \<open>state.isConnected\<close>.
\<close>

definition networkListener :: "bool \<Rightarrow> world \<Rightarrow> world" where
  "networkListener connected w =
     (if connected \<and> \<not> isProcessing w then processQueue_detached w else w)"

definition addToQueue ::
  "env \<Rightarrow> file_info \<Rightarrow> string \<Rightarrow> string \<Rightarrow> string \<Rightarrow> string \<Rightarrow> world \<Rightarrow> string result" where
  "addToQueue E f tgs cat upl chat w =
     (let upload = \<lparr>upload_id = generateId E w,
                    upload_file = f,
                    metadata = \<lparr>tags = tgs, category = cat, uploader = upl, chatId = chat\<rparr>,
                    status = Pending,
                    attempts = 0,
                    lastAttempt = None,
                    error = None,
                    createdAt = date_toISOString E (tick w)\<rparr>
      in await (getQueue E w) (\<lambda>queue w.
           let queue = queue @ [upload]
           in await (saveQueue E queue w) (\<lambda>_ w.
              await (notifyListeners E queue w) (\<lambda>_ w.
              await (NetInfo_fetch E w) (\<lambda>netInfo w.
                (Inr (upload_id upload),
                 if netInfo then processQueue_detached w else w))))))"

definition removeFromQueue :: "env \<Rightarrow> string \<Rightarrow> world \<Rightarrow> unit result" where
  "removeFromQueue E uploadId w =
     await (getQueue E w) (\<lambda>queue w.
       let filteredQueue = filter (\<lambda>upload. upload_id upload \<noteq> uploadId) queue
       in await (saveQueue E filteredQueue w) (\<lambda>_ w. notifyListeners E filteredQueue w))"

definition clearCompleted :: "env \<Rightarrow> world \<Rightarrow> unit result" where
  "clearCompleted E w =
     await (getQueue E w) (\<lambda>queue w.
       let activeQueue = filter (\<lambda>upload. status upload \<noteq> Completed) queue
       in await (saveQueue E activeQueue w) (\<lambda>_ w. notifyListeners E activeQueue w))"

definition clearQueue :: "env \<Rightarrow> world \<Rightarrow> unit result" where
  "clearQueue E w = await (saveQueue E [] w) (\<lambda>_ w. notifyListeners E [] w)"

text \<open>
  The callback of the \<open>forEach\<close> in \<open>retryFailedUploads\<close>, which updates each object of the
  loaded queue in place.
\<close>

definition rearm :: "QueuedUpload \<Rightarrow> QueuedUpload" where
  "rearm upload =
     (if status upload = Failed \<and> attempts upload < MAX_RETRIES
      then upload\<lparr>status := Pending, error := None\<rparr>
      else upload)"

definition retryFailedUploads :: "env \<Rightarrow> world \<Rightarrow> unit result" where
  "retryFailedUploads E w =
     await (getQueue E w) (\<lambda>queue w.
       let queue = map rearm queue
       in await (saveQueue E queue w) (\<lambda>_ w.
          await (notifyListeners E queue w) (\<lambda>_ w.
            (Inr (), processQueue_detached w))))"

subsection \<open>Invocations of processQueue that overlap\<close>

text \<open>
  One invocation of \<open>processQueue\<close>, resumed at the \<open>await\<close> where it is suspended and run
  to the next one. Between two \<open>await\<close>s nothing else runs (JavaScript is single-threaded);
  at an \<open>await\<close> any other suspended invocation may be resumed first. An iteration of the
  loop is taken as one step, which leaves out interleavings inside \<open>processUpload\<close> but adds
  none.
\<close>

fun pq_resume :: "env \<Rightarrow> pq_task \<Rightarrow> world \<Rightarrow> pq_task \<times> world" where
  "pq_resume E PQ_AwaitNet w =
     (case NetInfo_fetch E w of
        (Inl e, w') \<Rightarrow> (PQ_Rejected e, w')
      | (Inr netInfo, w') \<Rightarrow>
          if \<not> netInfo then (PQ_Done, w')
          else (PQ_AwaitQueue, w'\<lparr>isProcessing := True\<rparr>))"
| "pq_resume E PQ_AwaitQueue w =
     (case getQueue E w of
        (Inl e, w') \<Rightarrow> (PQ_Rejected e, w')
      | (Inr queue, w') \<Rightarrow> (PQ_Loop (filter eligible queue), w'))"
| "pq_resume E (PQ_Loop []) w = (PQ_Done, w\<lparr>isProcessing := False\<rparr>)"
| "pq_resume E (PQ_Loop (upload # rest)) w =
     (case try_catch (await (processUpload E upload w) (\<lambda>_ w. delay 1000 w))
                     (\<lambda>error w. (Inr (), w)) of
        (Inl e, w') \<Rightarrow> (PQ_Rejected e, w')
      | (Inr u, w') \<Rightarrow> (PQ_Loop rest, w'))"
| "pq_resume E PQ_Done w = (PQ_Done, w)"
| "pq_resume E (PQ_Rejected e) w = (PQ_Rejected e, w)"

text \<open>Resume the \<open>i\<close>-th of the suspended invocations.\<close>

definition resume :: "env \<Rightarrow> nat \<Rightarrow> world \<Rightarrow> world" where
  "resume E i w =
     (if i < length (drains w)
      then (case pq_resume E (drains w ! i) w of
              (t, w') \<Rightarrow> w'\<lparr>drains := (drains w')[i := t]\<rparr>)
      else w)"

fun run_schedule :: "env \<Rightarrow> nat list \<Rightarrow> world \<Rightarrow> world" where
  "run_schedule E [] w = w"
| "run_schedule E (i # sched) w = run_schedule E sched (resume E i w)"

definition sendDocument_calls :: "event list \<Rightarrow> (string \<times> file_info \<times> upload_metadata) list" where
  "sendDocument_calls evs =
     concat (map (\<lambda>e. case e of SendDocument i f m \<Rightarrow> [(i, f, m)] | _ \<Rightarrow> []) evs)"

text \<open>One call of \<open>processQueue\<close> that the caller awaits.\<close>

definition drain :: "env \<Rightarrow> world \<Rightarrow> world" where
  "drain E w = snd (processQueue E w)"

subsection \<open>Notions used in the statements and proofs\<close>

text \<open>
  The queue that the store holds, what \<open>getQueue\<close> returns in a world, and the upload object
  that \<open>addToQueue\<close> builds.
\<close>

definition persisted :: "world \<Rightarrow> QueuedUpload list" where
  "persisted w = (case storage w of QueueJson queue \<Rightarrow> queue | _ \<Rightarrow> [])"

definition loaded :: "env \<Rightarrow> world \<Rightarrow> QueuedUpload list" where
  "loaded E w = (if getItem_throws E (tick w) then [] else persisted w)"

definition new_upload ::
  "env \<Rightarrow> file_info \<Rightarrow> string \<Rightarrow> string \<Rightarrow> string \<Rightarrow> string \<Rightarrow> world \<Rightarrow> QueuedUpload" where
  "new_upload E f tgs cat upl chat w =
     \<lparr>upload_id = generateId E w,
      upload_file = f,
      metadata = \<lparr>tags = tgs, category = cat, uploader = upl, chatId = chat\<rparr>,
      status = Pending,
      attempts = 0,
      lastAttempt = None,
      error = None,
      createdAt = date_toISOString E (tick w)\<rparr>"

text \<open>The world after \<open>saveQueue queue\<close> followed by \<open>notifyListeners queue\<close>.\<close>

definition save_notify :: "env \<Rightarrow> QueuedUpload list \<Rightarrow> world \<Rightarrow> world" where
  "save_notify E queue w =
     w\<lparr>storage := (if setItem_throws E (tick w) then storage w else QueueJson queue),
       trace := trace w @ SetItem queue (\<not> setItem_throws E (tick w))
                  # map (\<lambda>l. Listener l queue) (listeners w),
       tick := tick w + 1\<rparr>"

text \<open>
  The pieces of one attempt of \<open>processUpload\<close>: the queue with the entry marked uploading,
  the error that reaches the \<open>catch\<close> block, the queue after the \<open>try\<close> statement, the actions
  of the \<open>try\<close> block, and the world after the whole attempt.
\<close>

definition begin_attempt :: "env \<Rightarrow> world \<Rightarrow> QueuedUpload list \<Rightarrow> nat \<Rightarrow> QueuedUpload list" where
  "begin_attempt E w queue i =
     queue[i := (queue ! i)\<lparr>status := Uploading,
                            attempts := attempts (queue ! i) + 1,
                            lastAttempt := Some (date_toISOString E (tick w))\<rparr>]"

definition thrown :: "env \<Rightarrow> js_error + telegram_response \<Rightarrow> js_error option" where
  "thrown E r = (case r of Inl e \<Rightarrow> Some e
                 | Inr NoDocument \<Rightarrow> Some (engine_TypeError E)
                 | Inr (Document fileId) \<Rightarrow> None)"

definition end_attempt ::
  "env \<Rightarrow> QueuedUpload \<Rightarrow> js_error + telegram_response \<Rightarrow> QueuedUpload list \<Rightarrow> nat \<Rightarrow>
     QueuedUpload list" where
  "end_attempt E upload r queue i =
     (case thrown E r of
        None \<Rightarrow> queue[i := (queue ! i)\<lparr>status := Completed, error := None\<rparr>]
      | Some e \<Rightarrow>
          if attempts upload \<ge> MAX_RETRIES
          then queue[i := (queue ! i)\<lparr>status := Failed,
                 error := Some (message_or e ''Upload failed after max retries'')\<rparr>]
          else queue[i := (queue ! i)\<lparr>status := Pending,
                 error := Some (message_or e ''Upload failed, will retry'')\<rparr>])"

definition transfer_events :: "QueuedUpload \<Rightarrow> js_error + telegram_response \<Rightarrow> event list" where
  "transfer_events upload r =
     SendDocument (upload_id upload) (upload_file upload) (metadata upload)
     # (case r of Inr (Document fileId) \<Rightarrow> [InsertFile fileId (upload_file upload) (metadata upload)]
        | _ \<Rightarrow> [])"

definition transferred :: "QueuedUpload \<Rightarrow> js_error + telegram_response \<Rightarrow> world \<Rightarrow> world" where
  "transferred upload r w =
     w\<lparr>trace := trace w @ transfer_events upload r,
       tick := tick w + length (transfer_events upload r)\<rparr>"

definition attempt :: "env \<Rightarrow> QueuedUpload \<Rightarrow> nat \<Rightarrow> world \<Rightarrow> world" where
  "attempt E upload i w =
     (let queue = begin_attempt E (advance w) (loaded E w) i;
          w1 = save_notify E queue (advance w);
          r = sendDocument_result E (tick w1)
      in save_notify E (end_attempt E upload r queue i) (transferred upload r w1))"

definition after_uploads :: "env \<Rightarrow> QueuedUpload list \<Rightarrow> world \<Rightarrow> world" where
  "after_uploads E uploads w = fold (\<lambda>upload w. snd (processUpload E upload w)) uploads w"

text \<open>The \<open>sendDocument\<close> call that an upload gives rise to.\<close>

definition call_of :: "QueuedUpload \<Rightarrow> string \<times> file_info \<times> upload_metadata" where
  "call_of upload = (upload_id upload, upload_file upload, metadata upload)"

text \<open>The actions performed between a world and a later one.\<close>

definition new_events :: "world \<Rightarrow> world \<Rightarrow> event list" where
  "new_events w w' = drop (length (trace w)) (trace w')"

text \<open>
  Every call of \<open>setItem\<close> with a queue is followed at once by the calls of the listeners
  \<open>ls\<close>, in this order, with the same queue.
\<close>

fun broadcasts_follow :: "nat list \<Rightarrow> event list \<Rightarrow> bool" where
  "broadcasts_follow ls [] = True"
| "broadcasts_follow ls (SetItem queue ok # evs) =
     (take (length ls) evs = map (\<lambda>l. Listener l queue) ls \<and> broadcasts_follow ls evs)"
| "broadcasts_follow ls (e # evs) = broadcasts_follow ls evs"

subsection \<open>Sample data\<close>

text \<open>
  An upload with a given id, status and attempt count; an outside that is online, where the
  store fails or not as given, every \<open>sendDocument\<close> ends as given and listener 1 throws;
  the error that \<open>telegramService.handleError\<close> builds for a network failure; the response
  of a successful upload, with the remote file id; and the process right after a start, with a
  given persisted value.
\<close>

definition sample_upload :: "string \<Rightarrow> upload_status \<Rightarrow> nat \<Rightarrow> QueuedUpload" where
  "sample_upload i s n =
     \<lparr>upload_id = i,
      upload_file = \<lparr>file_uri = ''file:///a.pdf'', file_name = ''a.pdf'',
                      file_type = ''application/pdf'', file_size = 10\<rparr>,
      metadata = \<lparr>tags = ''t'', category = ''c'', uploader = ''u'', chatId = ''42''\<rparr>,
      status = s, attempts = n, lastAttempt = None, error = None, createdAt = ''2025''\<rparr>"

definition sample_file :: file_info where
  "sample_file = \<lparr>file_uri = ''file:///b.png'', file_name = ''b.png'',
                   file_type = ''image/png'', file_size = 20\<rparr>"

definition sample_env :: "bool \<Rightarrow> bool \<Rightarrow> (js_error + telegram_response) \<Rightarrow> env" where
  "sample_env load_fails save_fails r =
     \<lparr>getItem_throws = (\<lambda>_. load_fails), setItem_throws = (\<lambda>_. save_fails),
      isConnected = (\<lambda>_. True), sendDocument_result = (\<lambda>_. r),
      listener_throws = (\<lambda>l _. l = 1),
      date_toISOString = (\<lambda>_. ''now''), date_now = (\<lambda>_. ''17''),
      random_toString36 = (\<lambda>_. ''0.abcdefghijkl''),
      engine_TypeError = JsError (Some ''Cannot read property file_id of undefined'')\<rparr>"

definition network_down :: "js_error + telegram_response" where
  "network_down = Inl (JsError (Some ''Network error. Please check your connection.''))"

text \<open>The same outside, except that the read of the store fails at interaction \<open>k\<close> only.\<close>

definition read_fails_at :: "nat \<Rightarrow> (js_error + telegram_response) \<Rightarrow> env" where
  "read_fails_at k r = (sample_env False False r)\<lparr>getItem_throws := (\<lambda>n. n = k)\<rparr>"

definition delivered :: "string \<Rightarrow> js_error + telegram_response" where
  "delivered fileId = Inr (Document (Some fileId))"

definition restarted :: "stored \<Rightarrow> world" where
  "restarted s =
     \<lparr>storage = s, isProcessing = False, listeners = [], trace = [], tick = 0, drains = []\<rparr>"

section \<open>Closed forms of the operations\<close>

lemma await_Inr [simp]: "await (Inr x, w) k = k x w"
  by (simp add: await_def)

lemma await_Inl [simp]: "await (Inl e, w) k = (Inl e, w)"
  by (simp add: await_def)

lemma try_catch_Inr [simp]: "try_catch (Inr x, w) h = (Inr x, w)"
  by (simp add: try_catch_def)

lemma try_catch_Inl [simp]: "try_catch (Inl e, w) h = h e w"
  by (simp add: try_catch_def)

lemma getQueue_eq: "getQueue E w = (Inr (loaded E w), advance w)"
  by (simp add: getQueue_def AsyncStorage_getItem_def loaded_def persisted_def JSON_parse_def
      split: stored.splits)

lemma saveQueue_eq:
  "saveQueue E queue w =
     (Inr (), w\<lparr>storage := (if setItem_throws E (tick w) then storage w else QueueJson queue),
               trace := trace w @ [SetItem queue (\<not> setItem_throws E (tick w))],
               tick := tick w + 1\<rparr>)"
  by (simp add: saveQueue_def AsyncStorage_setItem_def advance_def emit_def)

lemma forEach_listeners:
  "forEach ls (\<lambda>listener w. try_catch (call_listener E listener queue w) (\<lambda>error w. (Inr (), w))) w =
     (Inr (), w\<lparr>trace := trace w @ map (\<lambda>l. Listener l queue) ls\<rparr>)"
  by (induction ls arbitrary: w) (simp_all add: call_listener_def emit_def)

lemma notifyListeners_eq:
  "notifyListeners E queue w =
     (Inr (), w\<lparr>trace := trace w @ map (\<lambda>l. Listener l queue) (listeners w)\<rparr>)"
  by (simp add: notifyListeners_def forEach_listeners)

lemma save_then_notify:
  "await (saveQueue E queue w) (\<lambda>_ w. await (notifyListeners E queue w) k) =
     k () (save_notify E queue w)"
  by (cases w) (simp add: saveQueue_eq notifyListeners_eq save_notify_def)

lemma save_then_notify_last:
  "await (saveQueue E queue w) (\<lambda>_ w. notifyListeners E queue w) =
     (Inr (), save_notify E queue w)"
  by (cases w) (simp add: saveQueue_eq notifyListeners_eq save_notify_def)

lemma upload_try_catch:
  "try_catch (upload_try E upload queue i w) (upload_catch upload queue i) =
     (Inr (end_attempt E upload (sendDocument_result E (tick w)) queue i),
      transferred upload (sendDocument_result E (tick w)) w)"
  by (cases w)
     (simp add: upload_try_def upload_catch_def telegramService_sendDocument_def
       databaseService_insertFile_def end_attempt_def thrown_def transferred_def
       transfer_events_def advance_def emit_def
       split: sum.splits telegram_response.splits)

lemma processUpload_eq:
  "processUpload E upload w =
     (Inr (), case findIndex (\<lambda>u. upload_id u = upload_id upload) (loaded E w) of
                None \<Rightarrow> advance w
              | Some i \<Rightarrow> attempt E upload i w)"
  by (simp add: processUpload_def getQueue_eq save_then_notify save_then_notify_last
       upload_try_catch attempt_def begin_attempt_def Let_def split: option.splits)

section \<open>What an operation leaves alone\<close>

lemma save_notify_simps [simp]:
  "storage (save_notify E queue w) = (if setItem_throws E (tick w) then storage w else QueueJson queue)"
  "isProcessing (save_notify E queue w) = isProcessing w"
  "listeners (save_notify E queue w) = listeners w"
  "drains (save_notify E queue w) = drains w"
  "tick (save_notify E queue w) = tick w + 1"
  "trace (save_notify E queue w) =
     trace w @ SetItem queue (\<not> setItem_throws E (tick w)) # map (\<lambda>l. Listener l queue) (listeners w)"
  by (simp_all add: save_notify_def)

lemma advance_simps [simp]:
  "storage (advance w) = storage w"
  "isProcessing (advance w) = isProcessing w"
  "listeners (advance w) = listeners w"
  "drains (advance w) = drains w"
  "tick (advance w) = tick w + 1"
  "trace (advance w) = trace w"
  by (simp_all add: advance_def)

lemma transferred_simps [simp]:
  "storage (transferred u r w) = storage w"
  "isProcessing (transferred u r w) = isProcessing w"
  "listeners (transferred u r w) = listeners w"
  "drains (transferred u r w) = drains w"
  "tick (transferred u r w) = tick w + length (transfer_events u r)"
  "trace (transferred u r w) = trace w @ transfer_events u r"
  by (simp_all add: transferred_def)

lemma detached_simps [simp]:
  "storage (processQueue_detached w) = storage w"
  "isProcessing (processQueue_detached w) = isProcessing w"
  "listeners (processQueue_detached w) = listeners w"
  "tick (processQueue_detached w) = tick w"
  "trace (processQueue_detached w) = trace w"
  by (simp_all add: processQueue_detached_def)

lemma persisted_simps [simp]:
  "persisted (advance w) = persisted w"
  "persisted (transferred u r w) = persisted w"
  "persisted (save_notify E queue w) = (if setItem_throws E (tick w) then persisted w else queue)"
  "persisted (processQueue_detached w) = persisted w"
  by (simp_all add: persisted_def)

lemma loaded_drains [simp]: "loaded E (w\<lparr>drains := d\<rparr>) = loaded E w"
  by (simp add: loaded_def persisted_def)

lemma loaded_isProcessing [simp]: "loaded E (w\<lparr>isProcessing := b\<rparr>) = loaded E w"
  by (simp add: loaded_def persisted_def)

lemma attempt_frame [simp]:
  "isProcessing (attempt E u i w) = isProcessing w"
  "listeners (attempt E u i w) = listeners w"
  "drains (attempt E u i w) = drains w"
  by (simp_all add: attempt_def Let_def)

lemma processUpload_ok [simp]: "fst (processUpload E u w) = Inr ()"
  by (simp add: processUpload_eq)

lemma processUpload_frame [simp]:
  "isProcessing (snd (processUpload E u w)) = isProcessing w"
  "listeners (snd (processUpload E u w)) = listeners w"
  "drains (snd (processUpload E u w)) = drains w"
  by (simp_all add: processUpload_eq split: option.splits)

lemma processUpload_collapse: "processUpload E u w = (Inr (), snd (processUpload E u w))"
  by (simp add: processUpload_eq)

lemma for_uploads_eq: "for_uploads E uploads w = (Inr (), after_uploads E uploads w)"
proof (induction uploads arbitrary: w)
  case Nil
  show ?case by (simp add: after_uploads_def)
next
  case (Cons u us)
  have "for_uploads E (u # us) w = for_uploads E us (snd (processUpload E u w))"
    by (subst for_uploads.simps, subst processUpload_collapse) (simp add: delay_def)
  with Cons show ?case by (simp add: after_uploads_def)
qed

lemma processQueue_eq:
  "processQueue E w =
     (Inr (),
      if isProcessing w then w
      else if \<not> isConnected E (tick w) then advance w
      else (after_uploads E (filter eligible (loaded E ((advance w)\<lparr>isProcessing := True\<rparr>)))
              (advance ((advance w)\<lparr>isProcessing := True\<rparr>)))\<lparr>isProcessing := False\<rparr>)"
  by (simp add: processQueue_def NetInfo_fetch_def getQueue_eq for_uploads_eq Let_def)

lemma after_uploads_simps [simp]:
  "after_uploads E [] w = w"
  "after_uploads E (u # us) w = after_uploads E us (snd (processUpload E u w))"
  by (simp_all add: after_uploads_def)

lemma after_uploads_frame [simp]:
  "isProcessing (after_uploads E us w) = isProcessing w"
  "listeners (after_uploads E us w) = listeners w"
  "drains (after_uploads E us w) = drains w"
  by (induction us arbitrary: w) simp_all

lemma addToQueue_eq:
  "addToQueue E f tgs cat upl chat w =
     (Inr (generateId E w),
      let w' = advance (save_notify E (loaded E w @ [new_upload E f tgs cat upl chat w]) (advance w))
      in if isConnected E (tick w + 2) then processQueue_detached w' else w')"
  by (simp add: addToQueue_def getQueue_eq save_then_notify NetInfo_fetch_def new_upload_def
        Let_def)

lemma removeFromQueue_eq:
  "removeFromQueue E uploadId w =
     (Inr (), save_notify E (filter (\<lambda>upload. upload_id upload \<noteq> uploadId) (loaded E w)) (advance w))"
  by (simp add: removeFromQueue_def getQueue_eq save_then_notify_last Let_def)

lemma clearCompleted_eq:
  "clearCompleted E w =
     (Inr (), save_notify E (filter (\<lambda>upload. status upload \<noteq> Completed) (loaded E w)) (advance w))"
  by (simp add: clearCompleted_def getQueue_eq save_then_notify_last Let_def)

lemma clearQueue_eq: "clearQueue E w = (Inr (), save_notify E [] w)"
  by (simp add: clearQueue_def save_then_notify_last)

lemma retryFailedUploads_eq:
  "retryFailedUploads E w =
     (Inr (), processQueue_detached (save_notify E (map rearm (loaded E w)) (advance w)))"
  by (simp add: retryFailedUploads_def getQueue_eq save_then_notify Let_def)

section \<open>The persisted queue across an attempt\<close>

lemma findIndex_Some:
  "findIndex P xs = Some i \<Longrightarrow> i < length xs \<and> P (xs ! i) \<and> (\<forall>j<i. \<not> P (xs ! j))"
proof (induction xs arbitrary: i)
  case Nil
  then show ?case by simp
next
  case (Cons x xs)
  show ?case
  proof (cases "P x")
    case True
    with Cons.prems show ?thesis by simp
  next
    case False
    with Cons.prems obtain k where k: "findIndex P xs = Some k" "i = Suc k"
      by auto
    from Cons.IH [OF k(1)] False k(2) show ?thesis
      by (auto simp: less_Suc_eq_0_disj)
  qed
qed

lemma findIndex_None: "findIndex P xs = None \<longleftrightarrow> (\<forall>x\<in>set xs. \<not> P x)"
  by (induction xs) auto

lemma length_begin_attempt [simp]: "length (begin_attempt E w queue i) = length queue"
  by (simp add: begin_attempt_def)

lemma length_end_attempt [simp]: "length (end_attempt E u r queue i) = length queue"
  by (simp add: end_attempt_def split: option.splits)

lemma nth_begin_attempt: "j \<noteq> i \<Longrightarrow> begin_attempt E w queue i ! j = queue ! j"
  by (simp add: begin_attempt_def)

lemma nth_end_attempt: "j \<noteq> i \<Longrightarrow> end_attempt E u r queue i ! j = queue ! j"
  by (simp add: end_attempt_def split: option.splits)

lemma ids_list_update:
  "i < length xs \<Longrightarrow> upload_id y = upload_id (xs ! i) \<Longrightarrow>
     map upload_id (xs[i := y]) = map upload_id xs"
  by (simp add: map_update list_update_same_conv)

lemma ids_begin_attempt:
  "i < length queue \<Longrightarrow> map upload_id (begin_attempt E w queue i) = map upload_id queue"
  by (simp add: begin_attempt_def ids_list_update)

lemma ids_end_attempt:
  "i < length queue \<Longrightarrow> map upload_id (end_attempt E u r queue i) = map upload_id queue"
  by (simp add: end_attempt_def ids_list_update split: option.splits)

lemma loaded_found:
  assumes "findIndex P (loaded E w) = Some i"
  shows "loaded E w = persisted w" and "i < length (persisted w)" and "P (persisted w ! i)"
proof -
  from findIndex_Some [OF assms] have i: "i < length (loaded E w)" "P (loaded E w ! i)"
    by simp_all
  then show "loaded E w = persisted w"
    by (auto simp: loaded_def split: if_splits)
  with i show "i < length (persisted w)" "P (persisted w ! i)"
    by simp_all
qed

lemma attempt_persisted:
  assumes "loaded E w = persisted w" "i < length (persisted w)"
  shows "map upload_id (persisted (attempt E u i w)) = map upload_id (persisted w)"
    and "length (persisted (attempt E u i w)) = length (persisted w)"
    and "j \<noteq> i \<Longrightarrow> persisted (attempt E u i w) ! j = persisted w ! j"
  using assms
  by (simp_all add: attempt_def Let_def ids_begin_attempt ids_end_attempt
        nth_begin_attempt nth_end_attempt)

lemma processUpload_ids:
  "map upload_id (persisted (snd (processUpload E u w))) = map upload_id (persisted w)"
proof (cases "findIndex (\<lambda>x. upload_id x = upload_id u) (loaded E w)")
  case None
  then show ?thesis by (simp add: processUpload_eq)
next
  case (Some i)
  with loaded_found [OF Some] show ?thesis
    by (simp add: processUpload_eq attempt_persisted)
qed

lemma processUpload_other:
  assumes "j < length (persisted w)" "upload_id (persisted w ! j) \<noteq> upload_id u"
  shows "persisted (snd (processUpload E u w)) ! j = persisted w ! j"
proof (cases "findIndex (\<lambda>x. upload_id x = upload_id u) (loaded E w)")
  case None
  then show ?thesis by (simp add: processUpload_eq)
next
  case (Some i)
  from loaded_found [OF Some] assms have "j \<noteq> i" by auto
  with Some loaded_found [OF Some] show ?thesis
    by (simp add: processUpload_eq attempt_persisted)
qed

lemma after_uploads_ids:
  "map upload_id (persisted (after_uploads E us w)) = map upload_id (persisted w)"
  by (induction us arbitrary: w) (simp_all add: processUpload_ids)

lemma after_uploads_other:
  assumes "j < length (persisted w)" "\<forall>u\<in>set us. upload_id u \<noteq> upload_id (persisted w ! j)"
  shows "persisted (after_uploads E us w) ! j = persisted w ! j"
  using assms
proof (induction us arbitrary: w)
  case Nil
  show ?case by simp
next
  case (Cons u us)
  let ?w = "snd (processUpload E u w)"
  have len: "length (persisted ?w) = length (persisted w)"
    using processUpload_ids [of E u w] by (metis length_map)
  have same: "persisted ?w ! j = persisted w ! j"
    using Cons.prems by (intro processUpload_other) auto
  have "persisted (after_uploads E us ?w) ! j = persisted ?w ! j"
    using Cons.prems len same by (intro Cons.IH) auto
  with same show ?case by simp
qed

section \<open>The calls of sendDocument\<close>

lemma sendDocument_calls_simps [simp]:
  "sendDocument_calls [] = []"
  "sendDocument_calls (xs @ ys) = sendDocument_calls xs @ sendDocument_calls ys"
  "sendDocument_calls (SetItem q b # xs) = sendDocument_calls xs"
  "sendDocument_calls (Listener l q # xs) = sendDocument_calls xs"
  "sendDocument_calls (InsertFile fid g n # xs) = sendDocument_calls xs"
  "sendDocument_calls (SendDocument i f m # xs) = (i, f, m) # sendDocument_calls xs"
  by (simp_all add: sendDocument_calls_def)

lemma sendDocument_calls_listeners [simp]:
  "sendDocument_calls (map (\<lambda>l. Listener l q) ls) = []"
  by (induction ls) simp_all

lemma sendDocument_calls_transfer [simp]:
  "sendDocument_calls (transfer_events u r) = [call_of u]"
  by (simp add: transfer_events_def call_of_def split: sum.splits telegram_response.splits)

lemma attempt_calls:
  "sendDocument_calls (trace (attempt E u i w)) = sendDocument_calls (trace w) @ [call_of u]"
  by (simp add: attempt_def Let_def)

lemma processUpload_calls:
  "sendDocument_calls (trace (snd (processUpload E u w))) =
     sendDocument_calls (trace w) @
       (case findIndex (\<lambda>x. upload_id x = upload_id u) (loaded E w) of
          None \<Rightarrow> [] | Some i \<Rightarrow> [call_of u])"
  by (simp add: processUpload_eq attempt_calls split: option.splits)

lemma found_in_persisted:
  assumes "\<not> getItem_throws E (tick w)" "upload_id u \<in> set (map upload_id (persisted w))"
  shows "\<exists>i. findIndex (\<lambda>x. upload_id x = upload_id u) (loaded E w) = Some i"
proof -
  from assms have "findIndex (\<lambda>x. upload_id x = upload_id u) (loaded E w) \<noteq> None"
    by (auto simp: findIndex_None loaded_def)
  then show ?thesis by auto
qed

lemma after_uploads_calls:
  assumes "\<forall>n. \<not> getItem_throws E n"
    and "upload_id ` set us \<subseteq> set (map upload_id (persisted w))"
  shows "sendDocument_calls (trace (after_uploads E us w)) =
           sendDocument_calls (trace w) @ map call_of us"
  using assms(2)
proof (induction us arbitrary: w)
  case Nil
  show ?case by simp
next
  case (Cons u us)
  let ?w = "snd (processUpload E u w)"
  from Cons.prems have "upload_id u \<in> set (map upload_id (persisted w))" by auto
  with assms(1) obtain i where "findIndex (\<lambda>x. upload_id x = upload_id u) (loaded E w) = Some i"
    using found_in_persisted by blast
  then have step: "sendDocument_calls (trace ?w) = sendDocument_calls (trace w) @ [call_of u]"
    by (simp add: processUpload_calls)
  have "upload_id ` set us \<subseteq> set (map upload_id (persisted ?w))"
    using Cons.prems by (simp add: processUpload_ids)
  from Cons.IH [OF this] step show ?case by simp
qed

lemma after_uploads_calls_subseq:
  "\<exists>as. subseq as us \<and>
        sendDocument_calls (trace (after_uploads E us w)) =
          sendDocument_calls (trace w) @ map call_of as"
proof (induction us arbitrary: w)
  case Nil
  show ?case by simp
next
  case (Cons u us)
  let ?w = "snd (processUpload E u w)"
  from Cons.IH [of ?w] obtain as where
    as: "subseq as us"
        "sendDocument_calls (trace (after_uploads E us ?w)) =
           sendDocument_calls (trace ?w) @ map call_of as"
    by blast
  show ?case
  proof (cases "findIndex (\<lambda>x. upload_id x = upload_id u) (loaded E w)")
    case None
    from as(1) have "subseq as (u # us)"
      using subseq_drop_many [of as us "[u]"] by simp
    moreover from None as(2)
    have "sendDocument_calls (trace (after_uploads E (u # us) w)) =
             sendDocument_calls (trace w) @ map call_of as"
      by (simp add: processUpload_calls)
    ultimately show ?thesis by blast
  next
    case (Some i)
    with as have "subseq (u # as) (u # us)"
      and "sendDocument_calls (trace (after_uploads E (u # us) w)) =
             sendDocument_calls (trace w) @ map call_of (u # as)"
      by (simp_all add: processUpload_calls)
    then show ?thesis by blast
  qed
qed

section \<open>The actions an operation adds\<close>

lemma broadcasts_follow_append:
  "broadcasts_follow ls xs \<Longrightarrow> broadcasts_follow ls ys \<Longrightarrow> broadcasts_follow ls (xs @ ys)"
proof (induction ls xs rule: broadcasts_follow.induct)
  case (1 ls)
  then show ?case by simp
next
  case (2 ls queue ok evs)
  from "2.prems"(1) have t: "take (length ls) evs = map (\<lambda>l. Listener l queue) ls"
    and b: "broadcasts_follow ls evs" by simp_all
  from t have "length ls \<le> length evs"
    by (metis length_map length_take min.absorb_iff2 min.cobounded1 nat_le_linear take_all)
  with t have "take (length ls) (evs @ ys) = map (\<lambda>l. Listener l queue) ls" by simp
  with "2.IH" b "2.prems"(2) show ?case by simp
qed simp_all

lemma broadcasts_follow_listeners [simp]:
  "broadcasts_follow ls (map (\<lambda>l. Listener l queue) ls')"
  by (induction ls') simp_all

lemma broadcasts_follow_save [simp]:
  "broadcasts_follow ls (SetItem queue ok # map (\<lambda>l. Listener l queue) ls)"
  by simp

lemma broadcasts_follow_transfer [simp]: "broadcasts_follow ls (transfer_events u r)"
  by (simp add: transfer_events_def split: sum.splits telegram_response.splits)

lemma attempt_trace:
  "\<exists>evs. trace (attempt E u i w) = trace w @ evs \<and> broadcasts_follow (listeners w) evs"
proof -
  let ?q1 = "begin_attempt E (advance w) (loaded E w) i"
  let ?r = "sendDocument_result E (tick w + 2)"
  let ?q2 = "end_attempt E u ?r ?q1 i"
  let ?ls = "listeners w"
  let ?a = "SetItem ?q1 (\<not> setItem_throws E (tick w + 1)) # map (\<lambda>l. Listener l ?q1) ?ls"
  let ?b = "transfer_events u ?r"
  let ?c = "SetItem ?q2 (\<not> setItem_throws E (tick w + 2 + length ?b)) # map (\<lambda>l. Listener l ?q2) ?ls"
  have "trace (attempt E u i w) = trace w @ (?a @ ?b @ ?c)"
    by (simp add: attempt_def Let_def add.commute add.left_commute numeral_2_eq_2)
  moreover have "broadcasts_follow ?ls (?a @ ?b @ ?c)"
    by (intro broadcasts_follow_append broadcasts_follow_save broadcasts_follow_transfer)
  ultimately show ?thesis by blast
qed

lemma processUpload_trace:
  "\<exists>evs. trace (snd (processUpload E u w)) = trace w @ evs \<and> broadcasts_follow (listeners w) evs"
proof (cases "findIndex (\<lambda>x. upload_id x = upload_id u) (loaded E w)")
  case None
  then have "trace (snd (processUpload E u w)) = trace w @ []"
    by (simp add: processUpload_eq)
  then show ?thesis by (metis broadcasts_follow.simps(1))
next
  case (Some i)
  with attempt_trace [of E u i w] show ?thesis by (simp add: processUpload_eq)
qed

lemma after_uploads_trace:
  "\<exists>evs. trace (after_uploads E us w) = trace w @ evs \<and> broadcasts_follow (listeners w) evs"
proof (induction us arbitrary: w)
  case Nil
  have "trace (after_uploads E [] w) = trace w @ []" by simp
  then show ?case by (metis broadcasts_follow.simps(1))
next
  case (Cons u us)
  let ?w = "snd (processUpload E u w)"
  from processUpload_trace obtain a where
    a: "trace ?w = trace w @ a" "broadcasts_follow (listeners w) a" by blast
  from Cons.IH [of ?w] obtain b where
    b: "trace (after_uploads E us ?w) = trace ?w @ b" "broadcasts_follow (listeners w) b"
    by auto
  from a b have "trace (after_uploads E (u # us) w) = trace w @ (a @ b)" by simp
  moreover from a b have "broadcasts_follow (listeners w) (a @ b)"
    by (simp add: broadcasts_follow_append)
  ultimately show ?case by blast
qed

lemma processQueue_trace:
  "\<exists>evs. trace (snd (processQueue E w)) = trace w @ evs \<and> broadcasts_follow (listeners w) evs"
proof -
  have triv: "\<exists>evs. trace w = trace w @ evs \<and> broadcasts_follow (listeners w) evs"
    by (metis append_Nil2 broadcasts_follow.simps(1))
  show ?thesis
    using triv after_uploads_trace [of E _ "advance ((advance w)\<lparr>isProcessing := True\<rparr>)"]
    by (simp add: processQueue_eq)
qed

lemma processUpload_calls_subset:
  "\<exists>evs. trace (snd (processUpload E u w)) = trace w @ evs \<and>
         set (sendDocument_calls evs) \<subseteq> {call_of u}"
proof (cases "findIndex (\<lambda>x. upload_id x = upload_id u) (loaded E w)")
  case None
  then have "trace (snd (processUpload E u w)) = trace w @ []"
    by (simp add: processUpload_eq)
  then show ?thesis by (metis empty_subsetI sendDocument_calls_simps(1) set_empty2)
next
  case (Some i)
  from attempt_trace [of E u i w] obtain evs where
    evs: "trace (attempt E u i w) = trace w @ evs" by blast
  with attempt_calls [of E u i w] have "sendDocument_calls evs = [call_of u]" by simp
  with evs Some show ?thesis by (simp add: processUpload_eq)
qed

lemma after_uploads_calls_subset:
  "\<exists>evs. trace (after_uploads E us w) = trace w @ evs \<and>
         set (sendDocument_calls evs) \<subseteq> call_of ` set us"
proof (induction us arbitrary: w)
  case Nil
  have "trace (after_uploads E [] w) = trace w @ []" by simp
  then show ?case by (metis empty_subsetI sendDocument_calls_simps(1) set_empty2)
next
  case (Cons u us)
  let ?w = "snd (processUpload E u w)"
  from processUpload_calls_subset obtain a where
    a: "trace ?w = trace w @ a" "set (sendDocument_calls a) \<subseteq> {call_of u}" by blast
  from Cons.IH [of ?w] obtain b where
    b: "trace (after_uploads E us ?w) = trace ?w @ b"
       "set (sendDocument_calls b) \<subseteq> call_of ` set us"
    by auto
  from a b have "trace (after_uploads E (u # us) w) = trace w @ (a @ b)" by simp
  moreover from a b have "set (sendDocument_calls (a @ b)) \<subseteq> call_of ` set (u # us)"
    by auto
  ultimately show ?case by blast
qed

lemma processQueue_calls_subset:
  "fst ` set (sendDocument_calls (new_events w (snd (processQueue E w)))) \<subseteq>
     upload_id ` {u \<in> set (persisted w). eligible u}"
proof -
  let ?w1 = "(advance w)\<lparr>isProcessing := True\<rparr>"
  let ?us = "filter eligible (loaded E ?w1)"
  from after_uploads_calls_subset [of E ?us "advance ?w1"] obtain evs where
    evs: "trace (after_uploads E ?us (advance ?w1)) = trace w @ evs"
         "set (sendDocument_calls evs) \<subseteq> call_of ` set ?us"
    by auto
  have "set ?us \<subseteq> {u \<in> set (persisted w). eligible u}"
    by (auto simp: loaded_def persisted_def)
  with evs(2) have "fst ` set (sendDocument_calls evs) \<subseteq> upload_id ` {u \<in> set (persisted w). eligible u}"
    by (fastforce simp: call_of_def)
  with evs(1) show ?thesis
    by (simp add: processQueue_eq new_events_def)
qed

section \<open>An invocation that nothing interrupts\<close>

lemma attempt_drains: "attempt E u i (w\<lparr>drains := d\<rparr>) = (attempt E u i w)\<lparr>drains := d\<rparr>"
  by (cases w) (simp add: attempt_def Let_def save_notify_def transferred_def advance_def
        begin_attempt_def loaded_def persisted_def)

lemma processUpload_drains:
  "snd (processUpload E u (w\<lparr>drains := d\<rparr>)) = (snd (processUpload E u w))\<lparr>drains := d\<rparr>"
  by (simp add: processUpload_eq attempt_drains advance_def split: option.splits)

lemma after_uploads_drains:
  "after_uploads E us (w\<lparr>drains := d\<rparr>) = (after_uploads E us w)\<lparr>drains := d\<rparr>"
  by (induction us arbitrary: w) (simp_all add: processUpload_drains)

lemma pq_resume_loop:
  "pq_resume E (PQ_Loop (u # us)) w = (PQ_Loop us, snd (processUpload E u w))"
  by (subst pq_resume.simps, subst processUpload_collapse) (simp add: delay_def)

lemma loop_run:
  assumes "k < length (drains w)" and "drains w ! k = PQ_Loop us"
  shows "run_schedule E (replicate (Suc (length us)) k) w =
           (after_uploads E us w)\<lparr>isProcessing := False, drains := (drains w)[k := PQ_Done]\<rparr>"
  using assms
proof (induction us arbitrary: w)
  case Nil
  then show ?case by (simp add: resume_def)
next
  case (Cons u us)
  let ?w = "(snd (processUpload E u w))\<lparr>drains := (drains w)[k := PQ_Loop us]\<rparr>"
  have step: "resume E k w = ?w"
    using Cons.prems by (simp add: resume_def pq_resume_loop del: pq_resume.simps)
  have "run_schedule E (replicate (Suc (length us)) k) ?w =
          (after_uploads E us ?w)\<lparr>isProcessing := False, drains := (drains ?w)[k := PQ_Done]\<rparr>"
    using Cons.prems by (intro Cons.IH) simp_all
  then show ?case
    using step by (simp add: after_uploads_drains)
qed

text \<open>
  Resuming one detached invocation until it has finished, with nothing in between, gives
  what \<open>processQueue\<close> gives.
\<close>

lemma uninterrupted_drain:
  assumes "\<not> isProcessing w"
  shows "\<exists>n. run_schedule E (replicate n (length (drains w))) (processQueue_detached w) =
               (snd (processQueue E w))\<lparr>drains := drains w @ [PQ_Done]\<rparr>"
proof (cases "isConnected E (tick w)")
  case False
  with assms have "run_schedule E (replicate 1 (length (drains w))) (processQueue_detached w) =
               (snd (processQueue E w))\<lparr>drains := drains w @ [PQ_Done]\<rparr>"
    by (simp add: processQueue_detached_def resume_def NetInfo_fetch_def processQueue_eq)
  then show ?thesis by blast
next
  case True
  let ?k = "length (drains w)"
  let ?w1 = "(advance w)\<lparr>isProcessing := True\<rparr>"
  let ?us = "filter eligible (loaded E ?w1)"
  let ?a = "?w1\<lparr>drains := drains w @ [PQ_AwaitQueue]\<rparr>"
  let ?b = "(advance ?w1)\<lparr>drains := drains w @ [PQ_Loop ?us]\<rparr>"
  have a: "resume E ?k (processQueue_detached w) = ?a"
    using assms True
    by (simp add: processQueue_detached_def resume_def NetInfo_fetch_def)
  have b: "resume E ?k ?a = ?b"
    by (cases w) (simp add: resume_def getQueue_eq advance_def loaded_def persisted_def)
  have c: "run_schedule E (replicate (Suc (length ?us)) ?k) ?b =
             (after_uploads E ?us ?b)\<lparr>isProcessing := False, drains := (drains ?b)[?k := PQ_Done]\<rparr>"
    by (intro loop_run) simp_all
  have "run_schedule E (replicate (Suc (Suc (Suc (length ?us)))) ?k) (processQueue_detached w) =
          (snd (processQueue E w))\<lparr>drains := drains w @ [PQ_Done]\<rparr>"
    using assms True a b c
    by (simp add: processQueue_eq after_uploads_drains)
  then show ?thesis by blast
qed

section \<open>The claims\<close>

text \<open>
  Claim C1 says that after exactly \<open>MAX_RETRIES = 3\<close> failed transfer attempts an item is
  \<open>failed\<close> with \<open>attempts = 3\<close>, and that no drain attempts it again. Here one pending item
  is drained while every \<open>sendDocument\<close> fails. After the third failed attempt the item is
  \<open>pending\<close> with three attempts, because the \<open>catch\<close> block compares the counter of the
  object that \<open>processQueue\<close> loaded, which lags one behind the persisted counter. The fourth
  drain therefore attempts the item a fourth time, and only then is it \<open>failed\<close>, with four
  attempts.
\<close>

theorem three_failures_leave_item_pending:
  "map status (persisted (drain (sample_env False False network_down)
     (drain (sample_env False False network_down)
       (drain (sample_env False False network_down)
         (restarted (QueueJson [sample_upload ''a'' Pending 0])))))) = [Pending]
   \<and> map attempts (persisted (drain (sample_env False False network_down)
     (drain (sample_env False False network_down)
       (drain (sample_env False False network_down)
         (restarted (QueueJson [sample_upload ''a'' Pending 0])))))) = [3]
   \<and> map status (persisted (drain (sample_env False False network_down)
     (drain (sample_env False False network_down)
       (drain (sample_env False False network_down)
         (drain (sample_env False False network_down)
           (restarted (QueueJson [sample_upload ''a'' Pending 0]))))))) = [Failed]
   \<and> map attempts (persisted (drain (sample_env False False network_down)
     (drain (sample_env False False network_down)
       (drain (sample_env False False network_down)
         (drain (sample_env False False network_down)
           (restarted (QueueJson [sample_upload ''a'' Pending 0]))))))) = [4]
   \<and> length (sendDocument_calls (trace (drain (sample_env False False network_down)
     (drain (sample_env False False network_down)
       (drain (sample_env False False network_down)
         (drain (sample_env False False network_down)
           (restarted (QueueJson [sample_upload ''a'' Pending 0])))))))) = 4"
  by code_simp

text \<open>
  Claim C2, as stated, says that \<open>retryFailedUploads\<close> sets every failed item back to
  \<open>pending\<close>. A failed item that has reached the cap stays failed.
\<close>

theorem retryFailedUploads_keeps_capped_item_failed:
  "persisted (snd (retryFailedUploads (sample_env False False network_down)
      (restarted (QueueJson [sample_upload ''a'' Failed 3])))) =
     [sample_upload ''a'' Failed 3]"
  by code_simp

text \<open>
  Claim C2, amended: when the store accepts the read and the write, \<open>retryFailedUploads\<close>
  returns normally; it sets every item that is \<open>failed\<close> with fewer than \<open>MAX_RETRIES\<close>
  attempts back to \<open>pending\<close> and clears its error, and leaves every other item as it is (a
  failed item at or above the cap stays failed); and it then calls \<open>processQueue\<close> without
  awaiting it, which starts a drain invocation unless \<open>isProcessing\<close> is set.
\<close>

theorem retryFailedUploads_rearms_below_cap:
  assumes "\<not> getItem_throws E (tick w)" and "\<not> setItem_throws E (tick w + 1)"
  shows "fst (retryFailedUploads E w) = Inr () \<and>
         storage (snd (retryFailedUploads E w)) =
           QueueJson (map (\<lambda>upload. if status upload = Failed \<and> attempts upload < MAX_RETRIES
                                   then upload\<lparr>status := Pending, error := None\<rparr>
                                   else upload) (persisted w)) \<and>
         drains (snd (retryFailedUploads E w)) =
           (if isProcessing w then drains w else drains w @ [PQ_AwaitNet])"
proof -
  have "rearm = (\<lambda>upload. if status upload = Failed \<and> attempts upload < MAX_RETRIES
                                   then upload\<lparr>status := Pending, error := None\<rparr>
                                   else upload)"
    by (rule ext) (simp add: rearm_def)
  with assms show ?thesis
    by (simp add: retryFailedUploads_eq loaded_def processQueue_detached_def)
qed

theorem retryFailedUploads_rearms_below_cap_witness:
  "storage (snd (retryFailedUploads (sample_env False False network_down)
      (restarted (QueueJson [sample_upload ''a'' Failed 1, sample_upload ''b'' Failed 3,
                             sample_upload ''c'' Completed 1])))) =
     QueueJson [sample_upload ''a'' Pending 1, sample_upload ''b'' Failed 3,
                sample_upload ''c'' Completed 1]
   \<and> drains (snd (retryFailedUploads (sample_env False False network_down)
      (restarted (QueueJson [sample_upload ''a'' Failed 1, sample_upload ''b'' Failed 3,
                             sample_upload ''c'' Completed 1])))) = [PQ_AwaitNet]"
  using retryFailedUploads_rearms_below_cap
    [of "sample_env False False network_down"
        "restarted (QueueJson [sample_upload ''a'' Failed 1, sample_upload ''b'' Failed 3,
                               sample_upload ''c'' Completed 1])"]
  by (simp add: sample_env_def restarted_def persisted_def sample_upload_def MAX_RETRIES_def)




text \<open>
  Claim C4 says that invocations of \<open>processQueue\<close> that overlap make together the transfer
  attempts of one invocation, and process no item twice. Two invocations are started on a
  store with one pending item before either has passed its \<open>await NetInfo.fetch()\<close>: both
  have read \<open>isProcessing\<close> as false, both set it afterwards, both load the queue, and each
  uploads the item, which ends with two attempts. One awaited invocation on the same store,
  or two in sequence, upload it once. The same happens through the public operations: an
  \<open>addToQueue\<close> while online starts one invocation, a connectivity event that arrives before
  that invocation has resumed starts a second, and the new item is uploaded twice.
\<close>

theorem overlapping_drains_upload_twice:
  "sendDocument_calls (trace (run_schedule (sample_env False False (delivered ''f''))
      [0, 1, 0, 1, 0, 1, 0, 1]
      (processQueue_detached (processQueue_detached
         (restarted (QueueJson [sample_upload ''a'' Pending 0])))))) =
     [call_of (sample_upload ''a'' Pending 0), call_of (sample_upload ''a'' Pending 0)]
   \<and> drains (run_schedule (sample_env False False (delivered ''f''))
      [0, 1, 0, 1, 0, 1, 0, 1]
      (processQueue_detached (processQueue_detached
         (restarted (QueueJson [sample_upload ''a'' Pending 0]))))) = [PQ_Done, PQ_Done]
   \<and> map attempts (persisted (run_schedule (sample_env False False (delivered ''f''))
      [0, 1, 0, 1, 0, 1, 0, 1]
      (processQueue_detached (processQueue_detached
         (restarted (QueueJson [sample_upload ''a'' Pending 0])))))) = [2]
   \<and> sendDocument_calls (trace (drain (sample_env False False (delivered ''f''))
         (restarted (QueueJson [sample_upload ''a'' Pending 0])))) =
     [call_of (sample_upload ''a'' Pending 0)]
   \<and> sendDocument_calls (trace (drain (sample_env False False (delivered ''f''))
       (drain (sample_env False False (delivered ''f''))
         (restarted (QueueJson [sample_upload ''a'' Pending 0]))))) =
     [call_of (sample_upload ''a'' Pending 0)]
   \<and> map fst (sendDocument_calls (trace (run_schedule (sample_env False False (delivered ''f''))
      [0, 1, 0, 1, 0, 1, 0, 1]
      (networkListener True
         (snd (addToQueue (sample_env False False (delivered ''f'')) sample_file
                 ''t'' ''c'' ''u'' ''42'' (restarted NoItem))))))) =
     [''upload_17_abcdefghi'', ''upload_17_abcdefghi'']
   \<and> map fst (sendDocument_calls (trace (run_schedule (sample_env False False (delivered ''f''))
      [0, 0, 0, 0]
      (snd (addToQueue (sample_env False False (delivered ''f'')) sample_file
                 ''t'' ''c'' ''u'' ''42'' (restarted NoItem)))))) =
     [''upload_17_abcdefghi'']"
  by code_simp

text \<open>
  Claim C5, as stated, says that a failed load or save is propagated to the caller of enqueue
  or drain and leaves the committed queue unchanged. With a store whose reads fail,
  \<open>addToQueue\<close> returns the new id as if nothing had happened, and the queue it then saves
  holds the new item alone: the item committed before is gone. With a store whose writes
  fail, \<open>addToQueue\<close> returns the new id too, and the item is not in the store.
\<close>

theorem addToQueue_hides_store_failure:
  "fst (addToQueue (sample_env True False network_down) sample_file ''t'' ''c'' ''u'' ''42''
         (restarted (QueueJson [sample_upload ''a'' Pending 0]))) = Inr ''upload_17_abcdefghi''
   \<and> map upload_id (persisted (snd (addToQueue (sample_env True False network_down)
         sample_file ''t'' ''c'' ''u'' ''42''
         (restarted (QueueJson [sample_upload ''a'' Pending 0]))))) = [''upload_17_abcdefghi'']
   \<and> fst (addToQueue (sample_env False True network_down) sample_file ''t'' ''c'' ''u'' ''42''
         (restarted (QueueJson [sample_upload ''a'' Pending 0]))) = Inr ''upload_17_abcdefghi''
   \<and> map upload_id (persisted (snd (addToQueue (sample_env False True network_down)
         sample_file ''t'' ''c'' ''u'' ''42''
         (restarted (QueueJson [sample_upload ''a'' Pending 0]))))) = [''a'']"
  by code_simp

text \<open>
  Claim C5, amended: a failed load or save of the queue is absorbed, not surfaced. When the
  load fails, \<open>getQueue\<close> returns the empty queue and leaves the store alone; when the save
  fails, \<open>saveQueue\<close> returns normally and the stored value is what it was; and
  \<open>addToQueue\<close> and \<open>processQueue\<close> return normally whatever the store does, \<open>addToQueue\<close>
  with the generated id.
\<close>

theorem persistence_failures_absorbed:
  "(getItem_throws E (tick w) \<longrightarrow>
      fst (getQueue E w) = Inr [] \<and> storage (snd (getQueue E w)) = storage w) \<and>
   (setItem_throws E (tick w) \<longrightarrow>
      fst (saveQueue E queue w) = Inr () \<and> storage (snd (saveQueue E queue w)) = storage w) \<and>
   fst (addToQueue E f tgs cat upl chat w) = Inr (generateId E w) \<and>
   fst (processQueue E w) = Inr ()"
  by (simp add: getQueue_eq loaded_def saveQueue_eq addToQueue_eq processQueue_eq)

theorem persistence_failures_absorbed_witness:
  "fst (getQueue (sample_env True True network_down)
         (restarted (QueueJson [sample_upload ''a'' Pending 0]))) = Inr []
   \<and> fst (saveQueue (sample_env True True network_down) []
         (restarted (QueueJson [sample_upload ''a'' Pending 0]))) = Inr ()
   \<and> storage (snd (saveQueue (sample_env True True network_down) []
         (restarted (QueueJson [sample_upload ''a'' Pending 0])))) =
       QueueJson [sample_upload ''a'' Pending 0]
   \<and> fst (addToQueue (sample_env True True network_down) sample_file ''t'' ''c'' ''u'' ''42''
         (restarted (QueueJson [sample_upload ''a'' Pending 0]))) = Inr ''upload_17_abcdefghi''
   \<and> fst (processQueue (sample_env True True network_down)
         (restarted (QueueJson [sample_upload ''a'' Pending 0]))) = Inr ()"
  using persistence_failures_absorbed
    [of "sample_env True True network_down"
        "restarted (QueueJson [sample_upload ''a'' Pending 0])"
        "[]" sample_file "''t''" "''c''" "''u''" "''42''"]
  by (simp add: sample_env_def restarted_def generateId_def)




text \<open>
  Claim C7: \<open>notifyListeners\<close> calls every subscribed listener with the queue, in the order
  of subscription (\<open>subscribe\<close> appends), whether or not a listener throws; and every
  operation that writes the queue (\<open>addToQueue\<close>, \<open>removeFromQueue\<close>, \<open>clearCompleted\<close>,
  \<open>clearQueue\<close>, \<open>retryFailedUploads\<close>, each status change of \<open>processUpload\<close>, and so a whole
  drain) follows each write at once by such a broadcast of the queue it wrote.
\<close>

theorem broadcast_reaches_every_listener:
  "notifyListeners E queue w =
     (Inr (), w\<lparr>trace := trace w @ map (\<lambda>l. Listener l queue) (listeners w)\<rparr>)
   \<and> new_events w (snd (notifyListeners E queue (subscribe l w))) =
       map (\<lambda>l. Listener l queue) (listeners w) @ [Listener l queue]
   \<and> broadcasts_follow (listeners w) (new_events w (snd (addToQueue E f tgs cat upl chat w)))
   \<and> broadcasts_follow (listeners w) (new_events w (snd (removeFromQueue E uploadId w)))
   \<and> broadcasts_follow (listeners w) (new_events w (snd (clearCompleted E w)))
   \<and> broadcasts_follow (listeners w) (new_events w (snd (clearQueue E w)))
   \<and> broadcasts_follow (listeners w) (new_events w (snd (retryFailedUploads E w)))
   \<and> broadcasts_follow (listeners w) (new_events w (snd (processUpload E upload w)))
   \<and> broadcasts_follow (listeners w) (new_events w (snd (processQueue E w)))"
proof (intro conjI)
  show "notifyListeners E queue w =
     (Inr (), w\<lparr>trace := trace w @ map (\<lambda>l. Listener l queue) (listeners w)\<rparr>)"
    by (rule notifyListeners_eq)
  show "new_events w (snd (notifyListeners E queue (subscribe l w))) =
       map (\<lambda>l. Listener l queue) (listeners w) @ [Listener l queue]"
    by (simp add: notifyListeners_eq subscribe_def new_events_def)
  show "broadcasts_follow (listeners w) (new_events w (snd (addToQueue E f tgs cat upl chat w)))"
    by (simp add: addToQueue_eq Let_def new_events_def)
  show "broadcasts_follow (listeners w) (new_events w (snd (removeFromQueue E uploadId w)))"
    by (simp add: removeFromQueue_eq new_events_def)
  show "broadcasts_follow (listeners w) (new_events w (snd (clearCompleted E w)))"
    by (simp add: clearCompleted_eq new_events_def)
  show "broadcasts_follow (listeners w) (new_events w (snd (clearQueue E w)))"
    by (simp add: clearQueue_eq new_events_def)
  show "broadcasts_follow (listeners w) (new_events w (snd (retryFailedUploads E w)))"
    by (simp add: retryFailedUploads_eq new_events_def)
  show "broadcasts_follow (listeners w) (new_events w (snd (processUpload E upload w)))"
    using processUpload_trace [of E upload w] by (auto simp: new_events_def)
  show "broadcasts_follow (listeners w) (new_events w (snd (processQueue E w)))"
    using processQueue_trace [of E w] by (auto simp: new_events_def)
qed

theorem broadcast_reaches_every_listener_witness:
  "listener_throws (sample_env False False network_down) 1 [sample_upload ''a'' Pending 0]
   \<and> trace (snd (notifyListeners (sample_env False False network_down)
        [sample_upload ''a'' Pending 0]
        (subscribe 2 (subscribe 1 (subscribe 0 (restarted NoItem)))))) =
     [Listener 0 [sample_upload ''a'' Pending 0], Listener 1 [sample_upload ''a'' Pending 0],
      Listener 2 [sample_upload ''a'' Pending 0]]
   \<and> new_events (subscribe 2 (subscribe 1 (subscribe 0 (restarted NoItem))))
       (snd (clearQueue (sample_env False False network_down)
          (subscribe 2 (subscribe 1 (subscribe 0 (restarted NoItem)))))) =
     [SetItem [] True, Listener 0 [], Listener 1 [], Listener 2 []]"
  using broadcast_reaches_every_listener
    [where E = "sample_env False False network_down"
       and queue = "[sample_upload ''a'' Pending 0]"
       and w = "subscribe 2 (subscribe 1 (subscribe 0 (restarted NoItem)))"]
  by (simp add: sample_env_def restarted_def subscribe_def clearQueue_eq new_events_def)

text \<open>
  Claim C8, as stated, says that \<open>addToQueue\<close> appends the new item to the persisted queue and
  leaves the earlier items unchanged for every input. With a store whose reads fail,
  \<open>addToQueue\<close> returns the new id and the queue it saves holds the new item alone: the two
  items queued before are gone. With a store whose writes fail, it returns the new id and the
  persisted queue holds the two earlier items only: the new item was not appended.
\<close>

theorem addToQueue_store_failure_breaks_append:
  "fst (addToQueue (sample_env True False (delivered ''f'')) sample_file ''x'' ''y'' ''z'' ''42''
         (restarted (QueueJson [sample_upload ''b'' Completed 1, sample_upload ''c'' Pending 0]))) =
     Inr ''upload_17_abcdefghi''
   \<and> map upload_id (persisted (snd (addToQueue (sample_env True False (delivered ''f''))
         sample_file ''x'' ''y'' ''z'' ''42''
         (restarted (QueueJson [sample_upload ''b'' Completed 1, sample_upload ''c'' Pending 0]))))) =
     [''upload_17_abcdefghi'']
   \<and> fst (addToQueue (sample_env False True (delivered ''f'')) sample_file ''x'' ''y'' ''z'' ''42''
         (restarted (QueueJson [sample_upload ''b'' Completed 1, sample_upload ''c'' Pending 0]))) =
     Inr ''upload_17_abcdefghi''
   \<and> map upload_id (persisted (snd (addToQueue (sample_env False True (delivered ''f''))
         sample_file ''x'' ''y'' ''z'' ''42''
         (restarted (QueueJson [sample_upload ''b'' Completed 1, sample_upload ''c'' Pending 0]))))) =
     [''b'', ''c'']"
  by code_simp

text \<open>
  Claim C8, amended: \<open>addToQueue\<close> returns normally with the generated id whatever the
  network state and the store are; and when the store accepts the read and the write, the
  persisted queue at its return is the queue persisted before, unchanged, followed by one new
  item with that id, the given file and metadata, status \<open>pending\<close>, no attempts and its
  creation time.
\<close>

theorem addToQueue_appends_pending_item:
  "fst (addToQueue E f tgs cat upl chat w) = Inr (generateId E w) \<and>
   (\<not> getItem_throws E (tick w) \<and> \<not> setItem_throws E (tick w + 1) \<longrightarrow>
      storage (snd (addToQueue E f tgs cat upl chat w)) =
        QueueJson (persisted w @
          [\<lparr>upload_id = generateId E w,
            upload_file = f,
            metadata = \<lparr>tags = tgs, category = cat, uploader = upl, chatId = chat\<rparr>,
            status = Pending,
            attempts = 0,
            lastAttempt = None,
            error = None,
            createdAt = date_toISOString E (tick w)\<rparr>]))"
  by (simp add: addToQueue_eq Let_def loaded_def new_upload_def)

theorem addToQueue_appends_pending_item_witness:
  "fst (addToQueue (sample_env False False network_down) sample_file ''x'' ''y'' ''z'' ''42''
         (restarted (QueueJson [sample_upload ''a'' Failed 4]))) = Inr ''upload_17_abcdefghi''
   \<and> storage (snd (addToQueue (sample_env False False network_down) sample_file
         ''x'' ''y'' ''z'' ''42'' (restarted (QueueJson [sample_upload ''a'' Failed 4])))) =
       QueueJson [sample_upload ''a'' Failed 4,
         \<lparr>upload_id = ''upload_17_abcdefghi'',
          upload_file = sample_file,
          metadata = \<lparr>tags = ''x'', category = ''y'', uploader = ''z'', chatId = ''42''\<rparr>,
          status = Pending, attempts = 0, lastAttempt = None, error = None,
          createdAt = ''now''\<rparr>]"
  using addToQueue_appends_pending_item
    [of "sample_env False False network_down" sample_file "''x''" "''y''" "''z''" "''42''"
        "restarted (QueueJson [sample_upload ''a'' Failed 4])"]
  by (simp add: sample_env_def restarted_def persisted_def generateId_def)

text \<open>
  Claim C9: when no item of the persisted queue has the id of the upload, \<open>processUpload\<close>
  returns normally after reading the queue and does nothing else: the store, the listeners
  and the flag are unchanged and no action is added, so no \<open>sendDocument\<close> call is made and no
  listener is notified.
\<close>

theorem processUpload_absent_id_noop:
  assumes "upload_id upload \<notin> upload_id ` set (persisted w)"
  shows "processUpload E upload w = (Inr (), w\<lparr>tick := tick w + 1\<rparr>) \<and>
         storage (snd (processUpload E upload w)) = storage w \<and>
         trace (snd (processUpload E upload w)) = trace w \<and>
         listeners (snd (processUpload E upload w)) = listeners w"
proof -
  from assms have "\<forall>x\<in>set (persisted w). upload_id x \<noteq> upload_id upload"
    by (metis imageI)
  then have "\<forall>x\<in>set (loaded E w). upload_id x \<noteq> upload_id upload"
    by (simp add: loaded_def)
  then have "findIndex (\<lambda>u. upload_id u = upload_id upload) (loaded E w) = None"
    by (simp add: findIndex_None)
  then show ?thesis by (simp add: processUpload_eq advance_def)
qed

theorem processUpload_absent_id_noop_witness:
  "upload_id (sample_upload ''gone'' Pending 0) \<notin>
     upload_id ` set (persisted (subscribe 0 (restarted (QueueJson [sample_upload ''a'' Pending 0]))))
   \<and> storage (snd (processUpload (sample_env False False (delivered ''f''))
        (sample_upload ''gone'' Pending 0)
        (subscribe 0 (restarted (QueueJson [sample_upload ''a'' Pending 0]))))) =
       QueueJson [sample_upload ''a'' Pending 0]
   \<and> trace (snd (processUpload (sample_env False False (delivered ''f''))
        (sample_upload ''gone'' Pending 0)
        (subscribe 0 (restarted (QueueJson [sample_upload ''a'' Pending 0]))))) = []"
  using processUpload_absent_id_noop
    [of "sample_upload ''gone'' Pending 0"
        "subscribe 0 (restarted (QueueJson [sample_upload ''a'' Pending 0]))"
        "sample_env False False (delivered ''f'')"]
  by (simp add: restarted_def subscribe_def persisted_def sample_upload_def)

text \<open>
  Claim C10: \<open>getQueue\<close> never throws. In every world it returns a queue: the empty queue
  when \<open>getItem\<close> rejects, when nothing or the empty string is stored, and when the stored
  text does not parse; and the stored queue otherwise.
\<close>

theorem getQueue_never_throws:
  "(\<exists>queue. fst (getQueue E w) = Inr queue) \<and>
   (getItem_throws E (tick w) \<or> storage w = NoItem \<or> storage w = EmptyString \<or> storage w = Garbage
      \<longrightarrow> fst (getQueue E w) = Inr []) \<and>
   (\<not> getItem_throws E (tick w) \<and> storage w = QueueJson queue \<longrightarrow> fst (getQueue E w) = Inr queue)"
  by (auto simp: getQueue_eq loaded_def persisted_def)

theorem getQueue_never_throws_witness:
  "fst (getQueue (sample_env True False network_down)
          (restarted (QueueJson [sample_upload ''a'' Pending 0]))) = Inr []
   \<and> fst (getQueue (sample_env False False network_down) (restarted Garbage)) = Inr []
   \<and> fst (getQueue (sample_env False False network_down) (restarted NoItem)) = Inr []
   \<and> fst (getQueue (sample_env False False network_down)
          (restarted (QueueJson [sample_upload ''a'' Pending 0]))) =
       Inr [sample_upload ''a'' Pending 0]"
  using getQueue_never_throws
      [of "sample_env True False network_down"
          "restarted (QueueJson [sample_upload ''a'' Pending 0])"]
    getQueue_never_throws [of "sample_env False False network_down" "restarted Garbage"]
    getQueue_never_throws [of "sample_env False False network_down" "restarted NoItem"]
    getQueue_never_throws
      [of "sample_env False False network_down"
          "restarted (QueueJson [sample_upload ''a'' Pending 0])"
          "[sample_upload ''a'' Pending 0]"]
  by (simp add: sample_env_def restarted_def)

end
